theory Spec2Isabelle
  imports Main
begin

unbundle bit_operations_syntax

section \<open>Python strings and builtins used by the assembler\<close>

text \<open>
  A Python \<open>str\<close> is modelled as a \<open>string\<close>, a list of characters that stand for the code
  points 0 to 255.
\<close>

text \<open>The characters for which \<open>str.isspace\<close> holds; \<open>str.strip()\<close> and \<open>str.split()\<close>
  use this set.\<close>

definition is_space :: "char \<Rightarrow> bool" where
  "is_space c \<longleftrightarrow> c \<in> set [CHR 0x09, CHR 0x0A, CHR 0x0B, CHR 0x0C, CHR 0x0D,
                           CHR 0x1C, CHR 0x1D, CHR 0x1E, CHR 0x1F, CHR 0x20,
                           CHR 0x85, CHR 0xA0]"

text \<open>\<open>s.strip()\<close>\<close>

definition strip :: "string \<Rightarrow> string" where
  "strip s = rev (dropWhile is_space (rev (dropWhile is_space s)))"

text \<open>\<open>s.split()\<close>: the maximal runs of non-whitespace characters, in order. The first
  argument is the token being read.\<close>

fun split_ws_aux :: "string \<Rightarrow> string \<Rightarrow> string list" where
  "split_ws_aux cur [] = (if cur = [] then [] else [cur])"
| "split_ws_aux cur (c # cs) =
     (if is_space c then (if cur = [] then split_ws_aux [] cs else cur # split_ws_aux [] cs)
      else split_ws_aux (cur @ [c]) cs)"

definition split_ws :: "string \<Rightarrow> string list" where
  "split_ws s = split_ws_aux [] s"

text \<open>\<open>s.split(c)\<close> for a one-character separator: empty pieces are kept, and the result
  is never empty.\<close>

fun split_on :: "char \<Rightarrow> string \<Rightarrow> string list" where
  "split_on c [] = [[]]"
| "split_on c (x # xs) =
     (if x = c then [] # split_on c xs
      else (case split_on c xs of [] \<Rightarrow> [[x]] | l # ls \<Rightarrow> (x # l) # ls))"

text \<open>\<open>sep.join(xs)\<close>\<close>

fun join :: "string \<Rightarrow> string list \<Rightarrow> string" where
  "join sep [] = []"
| "join sep [x] = x"
| "join sep (x # y # ys) = x @ sep @ join sep (y # ys)"

text \<open>\<open>s.replace(c, r)\<close> for a one-character \<open>c\<close>\<close>

definition replace :: "char \<Rightarrow> string \<Rightarrow> string \<Rightarrow> string" where
  "replace c r s = concat (map (\<lambda>x. if x = c then r else [x]) s)"

text \<open>
  \<open>s.upper()\<close> and \<open>s.lower()\<close>: the letters are \<open>a\<close> to \<open>z\<close> and the code points 224 to 254
  without 247, with their capitals 32 below. Three characters are left as they are although
  Python changes them, since what it gives is not made of code points up to 255: the
  upper-case forms of 181 and 255 lie above 255, and that of 223 is the two letters \<open>SS\<close>.
\<close>

definition upper_char :: "char \<Rightarrow> char" where
  "upper_char c =
     (let n = of_char c :: nat
      in if 97 \<le> n \<and> n \<le> 122 \<or> 224 \<le> n \<and> n \<le> 254 \<and> n \<noteq> 247 then char_of (n - 32) else c)"

definition lower_char :: "char \<Rightarrow> char" where
  "lower_char c =
     (let n = of_char c :: nat
      in if 65 \<le> n \<and> n \<le> 90 \<or> 192 \<le> n \<and> n \<le> 222 \<and> n \<noteq> 215 then char_of (n + 32) else c)"

definition upper :: "string \<Rightarrow> string" where
  "upper s = map upper_char s"

definition lower :: "string \<Rightarrow> string" where
  "lower s = map lower_char s"

text \<open>\<open>s.startswith(p)\<close>\<close>

definition startswith :: "string \<Rightarrow> string \<Rightarrow> bool" where
  "startswith s p \<longleftrightarrow> take (length p) s = p"

subsection \<open>Numbers to text\<close>

definition digit_char :: "nat \<Rightarrow> char" where
  "digit_char d = ''0123456789ABCDEF'' ! d"

text \<open>The digits of a natural number in base \<open>b\<close> (2 to 16), most significant first, upper case.\<close>

fun digits_of :: "nat \<Rightarrow> nat \<Rightarrow> string" where
  "digits_of b n = (if n < b \<or> b < 2 then [digit_char n] else digits_of b (n div b) @ [digit_char (n mod b)])"

declare digits_of.simps [simp del]

text \<open>The decimal text of an integer.\<close>

definition str_int :: "int \<Rightarrow> string" where
  "str_int v = (if v < 0 then CHR ''-'' # digits_of 10 (nat (- v)) else digits_of 10 (nat v))"

text \<open>The format \<open>f"{v:04X}"\<close>: upper-case hexadecimal, padded with zeros after the sign to a
  width of at least 4.\<close>

definition format_04X :: "int \<Rightarrow> string" where
  "format_04X v =
     (let sign = (if v < 0 then ''-'' else []); body = digits_of 16 (nat \<bar>v\<bar>)
      in sign @ replicate (4 - length sign - length body) CHR ''0'' @ body)"

subsection \<open>Text to numbers: the builtin \<open>int(s, base)\<close>\<close>

text \<open>
  The builtin is not part of the repository; it is modelled after CPython's string-to-integer
  conversion: optional whitespace, an optional sign, an optional base prefix (\<open>0x\<close> for
  base 16, \<open>0b\<close> for base 2) that one underscore may follow, digits with single underscores
  between them, optional whitespace. \<open>None\<close> stands for \<open>ValueError\<close>. CPython refuses
  decimal texts of more than 4300 digits by default, and it refuses to write an integer of
  more than 4300 decimal digits as text.
\<close>

text \<open>The whitespace of \<open>int\<close>: the code points 28 to 31 are not part of it.\<close>

definition is_c_space :: "char \<Rightarrow> bool" where
  "is_c_space c \<longleftrightarrow> c \<in> set [CHR 0x09, CHR 0x0A, CHR 0x0B, CHR 0x0C, CHR 0x0D, CHR 0x20,
                             CHR 0x85, CHR 0xA0]"

definition digit_value :: "char \<Rightarrow> nat" where
  "digit_value c =
     (let n = of_char c :: nat in
      if 48 \<le> n \<and> n \<le> 57 then n - 48
      else if 97 \<le> n \<and> n \<le> 122 then n - 87
      else if 65 \<le> n \<and> n \<le> 90 then n - 55
      else 37)"

definition is_digit :: "nat \<Rightarrow> char \<Rightarrow> bool" where
  "is_digit base c \<longleftrightarrow> digit_value c < base"

fun double_underscore :: "string \<Rightarrow> bool" where
  "double_underscore (a # b # cs) = ((a = CHR ''_'' \<and> b = CHR ''_'') \<or> double_underscore (b # cs))"
| "double_underscore _ = False"

text \<open>The value of a digit text, most significant digit first.\<close>

definition digits_value :: "nat \<Rightarrow> string \<Rightarrow> int" where
  "digits_value base ds = foldl (\<lambda>a c. a * int base + int (digit_value c)) 0 ds"

definition int_max_str_digits :: nat where
  "int_max_str_digits = 4300"

text \<open>The digits of the text, once sign and prefix are read.\<close>

definition int_digits :: "nat \<Rightarrow> string \<Rightarrow> int option" where
  "int_digits base s =
     (let body = takeWhile (\<lambda>c. is_digit base c \<or> c = CHR ''_'') s;
          rest = dropWhile (\<lambda>c. is_digit base c \<or> c = CHR ''_'') s;
          ds = filter (\<lambda>c. c \<noteq> CHR ''_'') body
      in if body = [] \<or> hd body = CHR ''_'' \<or> last body = CHR ''_'' \<or> double_underscore body
            \<or> \<not> list_all is_c_space rest
            \<or> (base = 10 \<and> length ds > int_max_str_digits)
         then None
         else Some (digits_value base ds))"

text \<open>Whether the text, its sign read, begins with the prefix of the base, and the text after
  the prefix and the one underscore that may follow it.\<close>

definition base_prefix :: "nat \<Rightarrow> string \<Rightarrow> bool" where
  "base_prefix base s \<longleftrightarrow>
     base = 16 \<and> (startswith s ''0x'' \<or> startswith s ''0X'')
     \<or> base = 2 \<and> (startswith s ''0b'' \<or> startswith s ''0B'')"

definition after_prefix :: "nat \<Rightarrow> string \<Rightarrow> string" where
  "after_prefix base s =
     (if base_prefix base s
      then (let s3 = drop 2 s in if startswith s3 ''_'' then tl s3 else s3)
      else s)"

definition py_int :: "string \<Rightarrow> nat \<Rightarrow> int option" where
  "py_int s base =
     (let s1 = dropWhile is_c_space s;
          negative = startswith s1 ''-'';
          s2 = (if startswith s1 ''+'' \<or> startswith s1 ''-'' then tl s1 else s1)
      in case int_digits base (after_prefix base s2) of
           None \<Rightarrow> None
         | Some v \<Rightarrow> Some (if negative then - v else v))"

section \<open>The assembler (assembler.py)\<close>

datatype error = ValueError string | KeyError string

text \<open>\<open>str(v)\<close> for an integer, as the f-string of \<open>parse_immediate\<close> calls it: it raises
  \<open>ValueError\<close> when the integer has more than 4300 decimal digits.\<close>

definition py_str :: "int \<Rightarrow> error + string" where
  "py_str v =
     (if length (digits_of 10 (nat \<bar>v\<bar>)) > int_max_str_digits
      then Inl (ValueError (''Exceeds the limit (4300 digits) for integer string conversion; ''
             @ ''use sys.set_int_max_str_digits() to increase the limit''))
      else Inr (str_int v))"

definition bind_result :: "error + 'a \<Rightarrow> ('a \<Rightarrow> error + 'b) \<Rightarrow> error + 'b" where
  "bind_result r f = (case r of Inl e \<Rightarrow> Inl e | Inr v \<Rightarrow> f v)"

text \<open>The two tables, in the order of the source.\<close>

definition OPCODES :: "(string \<times> int) list" where
  "OPCODES =
     [(''NOP'', 0), (''ADD'', 1), (''SUB'', 2), (''AND'', 3),
      (''OR'', 4), (''XOR'', 5), (''NOT'', 6), (''SHL'', 7),
      (''SHR'', 8), (''LDI'', 9), (''LD'', 10), (''ST'', 11),
      (''JMP'', 12), (''JZ'', 13), (''HLT'', 14), (''MOV'', 15)]"

datatype instr_type = none | reg | reg_reg | reg_imm | reg_regaddr | imm

definition INSTR_TYPES :: "(string \<times> instr_type) list" where
  "INSTR_TYPES =
     [(''NOP'', none), (''HLT'', none),
      (''ADD'', reg_reg), (''SUB'', reg_reg), (''AND'', reg_reg),
      (''OR'', reg_reg), (''XOR'', reg_reg), (''MOV'', reg_reg),
      (''NOT'', reg), (''SHL'', reg), (''SHR'', reg),
      (''LDI'', reg_imm),
      (''LD'', reg_regaddr), (''ST'', reg_regaddr),
      (''JMP'', imm), (''JZ'', imm)]"

text \<open>\<open>parse_register\<close>: the error message quotes the argument as it was passed.\<close>

definition parse_register :: "string \<Rightarrow> error + int" where
  "parse_register s =
     (let reg = replace CHR '']'' [] (replace CHR ''['' [] (upper s))
      in if startswith reg ''R'' \<and> length reg = 2 \<and> reg ! 1 \<in> set ''0123''
         then (case py_int [reg ! 1] 10 of
                 Some v \<Rightarrow> Inr v
               | None \<Rightarrow> Inl (ValueError (''invalid literal for int() with base 10: '' @ [reg ! 1])))
         else Inl (ValueError (''Invalid register: '' @ s @ '' (use R0, R1, R2, or R3)'')))"

text \<open>The \<open>try\<close> block of \<open>parse_immediate\<close>, on the stripped text: \<open>None\<close> when
  \<open>int\<close> raises \<open>ValueError\<close>.\<close>

definition immediate_value :: "string \<Rightarrow> int option" where
  "immediate_value s =
     (if startswith (lower s) ''0x'' then py_int s 16
      else if startswith (lower s) ''0b'' then py_int (drop 2 s) 2
      else py_int s 10)"

definition parse_immediate :: "string \<Rightarrow> error + int" where
  "parse_immediate s0 =
     (let s = strip s0
      in case immediate_value s of
           None \<Rightarrow> Inl (ValueError (''Invalid immediate value: '' @ s))
         | Some v \<Rightarrow>
             if v < 0 \<or> v > 255
             then (case py_str v of
                     Inl e \<Rightarrow> Inl e
                   | Inr digits \<Rightarrow>
                       Inl (ValueError (''Immediate value out of range (0-255): '' @ digits)))
             else Inr v)"

text \<open>The encoding step of \<open>parse_line\<close>:
  \<open>(opcode << 12) | (rd << 10) | (rs << 8) | (imm & 0xFF)\<close> on Python's unbounded integers.\<close>

definition encode :: "int \<Rightarrow> int \<Rightarrow> int \<Rightarrow> int \<Rightarrow> int" where
  "encode opcode rd rs im = push_bit 12 opcode OR push_bit 10 rd OR push_bit 8 rs OR (im AND 0xFF)"

text \<open>
  The body of \<open>parse_line\<close> once the line is split into \<open>parts\<close>. The format names are a
  datatype, so the last \<open>else\<close> of the source (a format name that is none of the six) has no
  branch here; a mnemonic with an opcode and no format would raise \<open>KeyError\<close>.
\<close>

definition parse_parts :: "string list \<Rightarrow> error + int" where
  "parse_parts parts =
     (if parts = [] then Inl (ValueError ''Empty instruction'')
      else
        let mnemonic = upper (parts ! 0) in
        case map_of OPCODES mnemonic of
          None \<Rightarrow> Inl (ValueError (''Unknown instruction: '' @ mnemonic))
        | Some opcode \<Rightarrow>
           (case map_of INSTR_TYPES mnemonic of
              None \<Rightarrow> Inl (KeyError mnemonic)
            | Some none \<Rightarrow> Inr (encode opcode 0 0 0)
            | Some reg \<Rightarrow>
                if length parts < 2
                then Inl (ValueError (mnemonic @ '' requires a register''))
                else bind_result (parse_register (parts ! 1)) (\<lambda>rd.
                     Inr (encode opcode rd 0 0))
            | Some reg_reg \<Rightarrow>
                if length parts < 3
                then Inl (ValueError (mnemonic @ '' requires two registers (Rd, Rs)''))
                else bind_result (parse_register (parts ! 1)) (\<lambda>rd.
                     bind_result (parse_register (parts ! 2)) (\<lambda>rs.
                     Inr (encode opcode rd rs 0)))
            | Some reg_imm \<Rightarrow>
                if length parts < 3
                then Inl (ValueError (mnemonic @ '' requires register and immediate (Rd, value)''))
                else bind_result (parse_register (parts ! 1)) (\<lambda>rd.
                     bind_result (parse_immediate (parts ! 2)) (\<lambda>im.
                     Inr (encode opcode rd 0 im)))
            | Some reg_regaddr \<Rightarrow>
                if length parts < 3
                then Inl (ValueError (mnemonic @
                       '' requires register and address register (Rd, [Rs] or Rd, Rs)''))
                else bind_result (parse_register (parts ! 1)) (\<lambda>rd.
                     bind_result (parse_register
                        (replace CHR '']'' [] (replace CHR ''['' [] (parts ! 2)))) (\<lambda>rs.
                     Inr (encode opcode rd rs 0)))
            | Some imm \<Rightarrow>
                if length parts < 2
                then Inl (ValueError (mnemonic @ '' requires an address''))
                else bind_result (parse_immediate (parts ! 1)) (\<lambda>im.
                     Inr (encode opcode 0 0 im))))"

definition parse_line :: "string \<Rightarrow> nat \<Rightarrow> error + int" where
  "parse_line line line_num = parse_parts (split_ws (replace CHR '','' '' '' line))"

record asm_result =
  success :: bool
  program :: "int list"
  errors :: "string list"

text \<open>What the loop of \<open>assemble\<close> does to a line before parsing it.\<close>

definition clean_line :: "string \<Rightarrow> string" where
  "clean_line l =
     (let line = strip l
      in if CHR '';'' \<in> set line then strip (takeWhile (\<lambda>c. c \<noteq> CHR '';'') line) else line)"

text \<open>The loop of \<open>assemble\<close> over the numbered lines. Only \<open>ValueError\<close> is caught; any
  other exception leaves the function. A line number is written with \<open>str_int\<close>: a text has
  far fewer than \<open>10 ^ 4300\<close> lines, so the limit of \<open>str\<close> plays no part there.\<close>

fun assemble_loop :: "(nat \<times> string) list \<Rightarrow> int list \<Rightarrow> string list \<Rightarrow> error + (int list \<times> string list)" where
  "assemble_loop [] prog errs = Inr (prog, errs)"
| "assemble_loop ((i, l) # rest) prog errs =
     (let line_num = i + 1; line = clean_line l
      in if line = [] then assemble_loop rest prog errs
         else (case parse_line line line_num of
                 Inr instruction \<Rightarrow> assemble_loop rest (prog @ [instruction]) errs
               | Inl (ValueError e) \<Rightarrow>
                   assemble_loop rest prog (errs @ [''Line '' @ str_int (int line_num) @ '': '' @ e])
               | Inl (KeyError k) \<Rightarrow> Inl (KeyError k)))"

definition assemble :: "string \<Rightarrow> error + asm_result" where
  "assemble text =
     bind_result (assemble_loop (enumerate 0 (split_on CHR 0x0A text)) [] []) (\<lambda>(prog, errs).
     Inr \<lparr>success = (length errs = 0), program = prog, errors = errs\<rparr>)"

text \<open>\<open>to_hex_file\<close>: the padding loop runs while there are fewer than 8 lines.\<close>

function pad_nops :: "string list \<Rightarrow> string list" where
  "pad_nops lines = (if length lines < 8 then pad_nops (lines @ [''0000'']) else lines)"
  by pat_completeness auto
termination
  by (relation "measure (\<lambda>lines. 8 - length lines)") auto

declare pad_nops.simps [simp del]

definition to_hex_file :: "int list \<Rightarrow> string" where
  "to_hex_file prog =
     join [CHR 0x0A] (pad_nops (foldl (\<lambda>lines instr. lines @ [format_04X instr]) [] prog))"

section \<open>The simulation server (server.py)\<close>

text \<open>The scanning loop of \<open>run_simulation\<close> over the lines of the run step's output:
  \<open>in_json\<close> and \<open>json_lines\<close> are the loop's two variables, and the loop is left at
  the first closing bracket that is buffered.\<close>

fun scan_lines :: "string list \<Rightarrow> bool \<Rightarrow> string list \<Rightarrow> string list" where
  "scan_lines [] in_json json_lines = json_lines"
| "scan_lines (l # ls) in_json json_lines =
     (let line = strip l
      in if line = [] then scan_lines ls in_json json_lines
         else if startswith line ''WARNING:'' \<or> startswith line ''ERROR:''
         then scan_lines ls in_json json_lines
         else if line = ''[''
         then scan_lines ls True (json_lines @ [line])
         else if in_json
         then (if line = '']'' then json_lines @ [line]
               else scan_lines ls in_json (json_lines @ [line]))
         else scan_lines ls in_json json_lines)"

definition extract_json_lines :: "string \<Rightarrow> string list" where
  "extract_json_lines output = scan_lines (split_on CHR 0x0A output) False []"

text \<open>
  What is outside the program: the two resolved tool paths, the two \<open>subprocess.run\<close> calls
  (each as a function of the memory image written to the workspace) and \<open>json.loads\<close>
  (\<open>Inl\<close> carries the text of a \<open>JSONDecodeError\<close>). The trace is a value of an
  arbitrary type \<open>'j\<close>; the empty list that failures carry as their trace is \<open>None\<close>.
\<close>

datatype proc_outcome =
    Completed int string string  \<comment> \<open>return code, stdout, stderr\<close>
  | TimeoutExpired
  | Raised string

record 'j toolchain =
  IVERILOG :: "string option"
  VVP :: "string option"
  run_iverilog :: "string \<Rightarrow> proc_outcome"
  run_vvp :: "string \<Rightarrow> proc_outcome"
  json_loads :: "string \<Rightarrow> string + 'j"

record 'j sim_result =
  sim_success :: bool
  sim_trace :: "'j option"
  sim_error :: "string option"

datatype tool_call = Compile | Execute

definition sim_failure :: "string \<Rightarrow> 'j sim_result" where
  "sim_failure msg = \<lparr>sim_success = False, sim_trace = None, sim_error = Some msg\<rparr>"

text \<open>\<open>run_simulation\<close>, with the list of the external tools it has started. Creating the
  workspace and writing the image into it are taken to succeed.\<close>

definition run_simulation :: "'j toolchain \<Rightarrow> string \<Rightarrow> 'j sim_result \<times> tool_call list" where
  "run_simulation tc hex_program =
     (if IVERILOG tc = None then (sim_failure ''iverilog not found'', [])
      else if VVP tc = None then (sim_failure ''vvp not found'', [])
      else
        case run_iverilog tc hex_program of
          TimeoutExpired \<Rightarrow> (sim_failure ''Compilation timeout'', [Compile])
        | Raised e \<Rightarrow> (sim_failure (''Compilation error: '' @ e), [Compile])
        | Completed returncode out err \<Rightarrow>
            if returncode \<noteq> 0
            then (sim_failure (''Compilation failed: '' @ err), [Compile])
            else
              (case run_vvp tc hex_program of
                 TimeoutExpired \<Rightarrow> (sim_failure ''Simulation timeout'', [Compile, Execute])
               | Raised e \<Rightarrow> (sim_failure (''Simulation error: '' @ e), [Compile, Execute])
               | Completed rc output err2 \<Rightarrow>
                   let json_lines = extract_json_lines output
                   in if json_lines = []
                      then (sim_failure (''No JSON output found. Raw output: '' @ take 500 output),
                            [Compile, Execute])
                      else
                        (case json_loads tc (join [CHR 0x0A] json_lines) of
                           Inl e \<Rightarrow>
                             (sim_failure (''JSON parse error: '' @ e @ ''. Output: '' @ take 500 output),
                              [Compile, Execute])
                         | Inr trace \<Rightarrow>
                             (\<lparr>sim_success = True, sim_trace = Some trace, sim_error = None\<rparr>,
                              [Compile, Execute]))))"

text \<open>The JSON response of \<open>/simulate\<close> with its HTTP status; the keys \<open>program\<close> and
  \<open>programHex\<close> are absent (\<open>None\<close>) from every failure.\<close>

record 'j response =
  status :: nat
  r_success :: bool
  r_trace :: "'j option"
  r_program :: "int list option"
  r_programHex :: "string list option"
  r_error :: "string option"

definition failure :: "nat \<Rightarrow> string \<Rightarrow> 'j response" where
  "failure code msg =
     \<lparr>status = code, r_success = False, r_trace = None, r_program = None,
      r_programHex = None, r_error = Some msg\<rparr>"

text \<open>\<open>str(e)\<close> of a caught exception\<close>

definition str_error :: "error \<Rightarrow> string" where
  "str_error e = (case e of ValueError m \<Rightarrow> m | KeyError k \<Rightarrow> [CHR 0x27] @ k @ [CHR 0x27])"

text \<open>
  \<open>simulate\<close>: the argument is what \<open>request.get_json()\<close> has returned, reduced to the
  \<open>assembly\<close> entry: \<open>Some\<close> of its text, or \<open>None\<close> when the parsed body is \<open>null\<close>, empty
  (\<open>{}\<close>) or an object with no such entry. A request for which \<open>get_json\<close> raises (a body
  that is missing or is not JSON) and an \<open>assembly\<close> entry that is not a text are not
  arguments of this function: the outer \<open>except\<close> answers them with status 500. The result
  carries the external tools that were started while the request was served.
\<close>

definition simulate :: "'j toolchain \<Rightarrow> string option \<Rightarrow> 'j response \<times> tool_call list" where
  "simulate tc body =
     (case body of
        None \<Rightarrow> (failure 400 (''Missing '' @ [CHR 0x22] @ ''assembly'' @ [CHR 0x22] @ '' in request body''), [])
      | Some assembly_code \<Rightarrow>
         (case assemble assembly_code of
            Inl e \<Rightarrow> (failure 500 (''Server error: '' @ str_error e), [])
          | Inr asm \<Rightarrow>
              if \<not> success asm
              then (failure 400 (''Assembly errors:'' @ [CHR 0x0A] @ join [CHR 0x0A] (errors asm)), [])
              else if program asm = []
              then (failure 400 ''No instructions in program'', [])
              else
                let hex_program = to_hex_file (program asm);
                    (sim, calls) = run_simulation tc hex_program
                in if \<not> sim_success sim
                   then (\<lparr>status = 500, r_success = sim_success sim, r_trace = sim_trace sim,
                          r_program = None, r_programHex = None, r_error = sim_error sim\<rparr>, calls)
                   else (\<lparr>status = 200, r_success = True, r_trace = sim_trace sim,
                          r_program = Some (program asm),
                          r_programHex = Some (split_on CHR 0x0A hex_program),
                          r_error = None\<rparr>, calls)))"

section \<open>Notions used to state the properties\<close>

text \<open>What one numbered line of the source adds to the program and to the errors.\<close>

definition line_words :: "nat \<times> string \<Rightarrow> int list" where
  "line_words = (\<lambda>(i, l).
     if clean_line l = [] then []
     else (case parse_line (clean_line l) (i + 1) of Inr w \<Rightarrow> [w] | Inl e \<Rightarrow> []))"

definition line_errors :: "nat \<times> string \<Rightarrow> string list" where
  "line_errors = (\<lambda>(i, l).
     if clean_line l = [] then []
     else (case parse_line (clean_line l) (i + 1) of
             Inr w \<Rightarrow> []
           | Inl e \<Rightarrow> [''Line '' @ str_int (int (i + 1)) @ '': '' @ str_error e]))"

text \<open>The number of operand tokens a format reads, and the text that follows the mnemonic in
  the error for too few of them.\<close>

definition operand_count :: "instr_type \<Rightarrow> nat" where
  "operand_count t = (case t of none \<Rightarrow> 0 | reg \<Rightarrow> 1 | imm \<Rightarrow> 1 | _ \<Rightarrow> 2)"

definition operand_pattern :: "instr_type \<Rightarrow> string" where
  "operand_pattern t =
     (case t of
        none \<Rightarrow> []
      | reg \<Rightarrow> '' requires a register''
      | reg_reg \<Rightarrow> '' requires two registers (Rd, Rs)''
      | reg_imm \<Rightarrow> '' requires register and immediate (Rd, value)''
      | reg_regaddr \<Rightarrow> '' requires register and address register (Rd, [Rs] or Rd, Rs)''
      | imm \<Rightarrow> '' requires an address'')"




text \<open>A token in which, after \<open>0b\<close> or \<open>0B\<close>, a numeral begins anew: with whitespace, with
  a sign or with a second prefix.\<close>

definition binary_resumed :: "string \<Rightarrow> bool" where
  "binary_resumed t \<longleftrightarrow>
     \<not> startswith (lower t) ''0x'' \<and> startswith (lower t) ''0b'' \<and>
     (startswith (drop 2 t) ''+'' \<or> startswith (drop 2 t) ''-''
      \<or> startswith (lower (drop 2 t)) ''0b''
      \<or> (drop 2 t \<noteq> [] \<and> is_space (hd (drop 2 t))))"


text \<open>A token without its bracket characters.\<close>

definition unbracket :: "string \<Rightarrow> string" where
  "unbracket s = filter (\<lambda>c. c \<noteq> CHR ''['' \<and> c \<noteq> CHR '']'') s"

text \<open>The lines of the run step's output that the scan looks at, and a list up to and
  including its first closing bracket.\<close>

definition kept_lines :: "string list \<Rightarrow> string list" where
  "kept_lines ls =
     filter (\<lambda>l. l \<noteq> [] \<and> \<not> startswith l ''WARNING:'' \<and> \<not> startswith l ''ERROR:'') (map strip ls)"

definition until_closing :: "string list \<Rightarrow> string list" where
  "until_closing ls = takeWhile (\<lambda>l. l \<noteq> '']'') ls @ take 1 (dropWhile (\<lambda>l. l \<noteq> '']'') ls)"

text \<open>The lines of a memory image: the words, then the padding.\<close>

definition image_lines :: "int list \<Rightarrow> string list" where
  "image_lines prog = map format_04X prog @ replicate (8 - length prog) ''0000''"

definition is_hex_digit :: "char \<Rightarrow> bool" where
  "is_hex_digit c \<longleftrightarrow> c \<in> set ''0123456789ABCDEF''"

section \<open>The instruction encoding\<close>

lemma and_255: "(x::int) AND 0xFF = take_bit 8 x"
  by (simp add: take_bit_eq_mask mask_eq_exp_minus_1)

lemma in_range_take_bit: "0 \<le> (x::int) \<and> x < 2 ^ n \<longleftrightarrow> take_bit n x = x"
  by (auto simp add: take_bit_int_eq_self_iff)

lemma high_bits_clear: "take_bit m (x::int) = x \<Longrightarrow> m \<le> k \<Longrightarrow> \<not> bit x k"
  by (metis bit_take_bit_iff not_le)

lemma encode_opcode:
  "take_bit 2 rd = rd \<Longrightarrow> take_bit 2 rs = rs \<Longrightarrow> drop_bit 12 (encode opcode rd rs im) = opcode"
  unfolding encode_def and_255
  by (rule bit_eqI) (simp add: bit_simps high_bits_clear)

lemma encode_rd:
  "take_bit 2 rd = rd \<Longrightarrow> take_bit 2 rs = rs \<Longrightarrow>
   take_bit 2 (drop_bit 10 (encode opcode rd rs im)) = rd"
  unfolding encode_def and_255
  by (rule bit_eqI) (auto simp add: bit_simps high_bits_clear)

lemma encode_rs:
  "take_bit 2 rs = rs \<Longrightarrow> take_bit 2 (drop_bit 8 (encode opcode rd rs im)) = rs"
  unfolding encode_def and_255
  by (rule bit_eqI) (auto simp add: bit_simps high_bits_clear)

lemma encode_imm:
  "take_bit 8 im = im \<Longrightarrow> take_bit 8 (encode opcode rd rs im) = im"
  unfolding encode_def and_255
  by (rule bit_eqI) (auto simp add: bit_simps high_bits_clear)

lemma encode_16_bits:
  "take_bit 4 opcode = opcode \<Longrightarrow> take_bit 2 rd = rd \<Longrightarrow> take_bit 2 rs = rs \<Longrightarrow>
   take_bit 16 (encode opcode rd rs im) = encode opcode rd rs im"
  unfolding encode_def and_255
  by (rule bit_eqI) (auto simp add: bit_simps high_bits_clear)

lemma encode_of_fields:
  "take_bit 16 w = w \<Longrightarrow>
   encode (drop_bit 12 w) (take_bit 2 (drop_bit 10 w)) (take_bit 2 (drop_bit 8 w)) (take_bit 8 w) = w"
  unfolding encode_def and_255
proof (rule bit_eqI)
  fix n
  assume w: "take_bit 16 w = w"
  show "bit (push_bit 12 (drop_bit 12 w) OR push_bit 10 (take_bit 2 (drop_bit 10 w)) OR
             push_bit 8 (take_bit 2 (drop_bit 8 w)) OR take_bit 8 (take_bit 8 w)) n = bit w n"
  proof (cases "n < 8")
    case True
    then show ?thesis by (auto simp add: bit_simps)
  next
    case False
    note n8 = this
    show ?thesis
    proof (cases "n < 10")
      case True
      with n8 show ?thesis by (auto simp add: bit_simps)
    next
      case False
      note n10 = this
      show ?thesis
      proof (cases "n < 12")
        case True
        with n8 n10 show ?thesis by (auto simp add: bit_simps)
      next
        case False
        with n8 n10 show ?thesis by (auto simp add: bit_simps)
      qed
    qed
  qed
qed

lemma fields_in_range:
  assumes "take_bit 16 w = (w::int)"
  shows "take_bit 4 (drop_bit 12 w) = drop_bit 12 w"
proof (rule bit_eqI)
  fix n
  have "\<not> n < 4 \<Longrightarrow> \<not> bit w (12 + n)"
    using high_bits_clear [OF assms, of "12 + n"] by simp
  then show "bit (take_bit 4 (drop_bit 12 w)) n = bit (drop_bit 12 w) n"
    by (auto simp add: bit_simps)
qed

text \<open>
  C1. For opcode in 0..15, rd and rs in 0..3 and imm in 0..255 the code word is a 16-bit value
  whose top 4 bits are the opcode, whose bits 11-10 are rd, whose bits 9-8 are rs and whose low
  8 bits are imm; and every 16-bit word is the code word of its own in-range fields. So the
  encoding is a bijection between in-range instructions and code words.
\<close>

theorem encode_bijection:
  "(0 \<le> opcode \<and> opcode < 16 \<and> 0 \<le> rd \<and> rd < 4 \<and> 0 \<le> rs \<and> rs < 4 \<and> 0 \<le> im \<and> im < 256 \<longrightarrow>
      0 \<le> encode opcode rd rs im \<and> encode opcode rd rs im < 65536 \<and>
      drop_bit 12 (encode opcode rd rs im) = opcode \<and>
      take_bit 2 (drop_bit 10 (encode opcode rd rs im)) = rd \<and>
      take_bit 2 (drop_bit 8 (encode opcode rd rs im)) = rs \<and>
      take_bit 8 (encode opcode rd rs im) = im)
   \<and> (0 \<le> w \<and> w < 65536 \<longrightarrow>
      0 \<le> drop_bit 12 w \<and> drop_bit 12 w < 16 \<and>
      encode (drop_bit 12 w) (take_bit 2 (drop_bit 10 w)) (take_bit 2 (drop_bit 8 w)) (take_bit 8 w) = w)"
proof (intro conjI impI)
  assume "0 \<le> opcode \<and> opcode < 16 \<and> 0 \<le> rd \<and> rd < 4 \<and> 0 \<le> rs \<and> rs < 4 \<and> 0 \<le> im \<and> im < 256"
  then have f: "take_bit 4 opcode = opcode" "take_bit 2 rd = rd" "take_bit 2 rs = rs"
    "take_bit 8 im = im"
    using in_range_take_bit [of opcode 4] in_range_take_bit [of rd 2]
      in_range_take_bit [of rs 2] in_range_take_bit [of im 8] by simp_all
  have "0 \<le> encode opcode rd rs im \<and> encode opcode rd rs im < 2 ^ 16"
    using encode_16_bits [OF f(1-3)] by (simp only: in_range_take_bit)
  then show "0 \<le> encode opcode rd rs im" and "encode opcode rd rs im < 65536" by simp_all
  show "drop_bit 12 (encode opcode rd rs im) = opcode" by (rule encode_opcode [OF f(2,3)])
  show "take_bit 2 (drop_bit 10 (encode opcode rd rs im)) = rd" by (rule encode_rd [OF f(2,3)])
  show "take_bit 2 (drop_bit 8 (encode opcode rd rs im)) = rs" by (rule encode_rs [OF f(3)])
  show "take_bit 8 (encode opcode rd rs im) = im" by (rule encode_imm [OF f(4)])
next
  assume "0 \<le> w \<and> w < 65536"
  then have w: "take_bit 16 w = w"
    using in_range_take_bit [of w 16] by simp
  have "0 \<le> drop_bit 12 w \<and> drop_bit 12 w < 2 ^ 4"
    using fields_in_range [OF w] by (simp only: in_range_take_bit)
  then show "0 \<le> drop_bit 12 w" and "drop_bit 12 w < 16" by simp_all
  show "encode (drop_bit 12 w) (take_bit 2 (drop_bit 10 w)) (take_bit 2 (drop_bit 8 w)) (take_bit 8 w) = w"
    by (rule encode_of_fields [OF w])
qed

theorem encode_bijection_witness:
  "encode 9 1 0 3 = 0x9403 \<and> drop_bit 12 (encode 9 1 0 3) = 9 \<and>
   take_bit 2 (drop_bit 10 (encode 9 1 0 3)) = 1 \<and> take_bit 2 (drop_bit 8 (encode 9 1 0 3)) = 0 \<and>
   take_bit 8 (encode 9 1 0 3) = 3 \<and>
   encode (drop_bit 12 0xB6FF) (take_bit 2 (drop_bit 10 0xB6FF)) (take_bit 2 (drop_bit 8 0xB6FF))
     (take_bit 8 0xB6FF) = 0xB6FF"
proof -
  have e: "encode 9 1 0 3 = 0x9403" by (simp add: encode_def)
  show ?thesis
    using encode_bijection [of 9 1 0 3 "0xB6FF"] e by simp
qed

section \<open>Whitespace\<close>


lemma last_dropWhile_eq: "dropWhile P xs \<noteq> [] \<Longrightarrow> last (dropWhile P xs) = last xs"
  by (induction xs) (auto split: if_splits)

lemma strip_Nil [simp]: "strip [] = []"
  by (simp add: strip_def)

lemma strip_eq_Nil_iff: "strip s = [] \<longleftrightarrow> (\<forall>c\<in>set s. is_space c)"
proof
  assume "strip s = []"
  then have "dropWhile is_space (rev (dropWhile is_space s)) = []" by (simp add: strip_def)
  then have "\<forall>c\<in>set (dropWhile is_space s). is_space c"
    by (simp add: dropWhile_eq_Nil_conv)
  then have "dropWhile is_space s = []"
    using hd_dropWhile [of is_space s] hd_in_set by blast
  then show "\<forall>c\<in>set s. is_space c" by (simp add: dropWhile_eq_Nil_conv)
next
  assume "\<forall>c\<in>set s. is_space c"
  then have d: "dropWhile is_space s = []" by (simp add: dropWhile_eq_Nil_conv)
  show "strip s = []" unfolding strip_def d by simp
qed

lemma strip_ends:
  assumes "strip s \<noteq> []"
  shows "\<not> is_space (hd (strip s))" and "\<not> is_space (last (strip s))"
proof -
  let ?u = "dropWhile is_space s"
  let ?v = "dropWhile is_space (rev ?u)"
  have v: "?v \<noteq> []" using assms by (simp add: strip_def)
  then have u: "?u \<noteq> []" by (metis dropWhile.simps(1) rev.simps(1))
  have "last ?v = last (rev ?u)" using v by (rule last_dropWhile_eq)
  also have "\<dots> = hd ?u" using u by (simp add: last_rev)
  finally have "hd (strip s) = hd ?u" using v by (simp add: strip_def hd_rev)
  then show "\<not> is_space (hd (strip s))" using u hd_dropWhile [of is_space s] by simp
  have "last (strip s) = hd ?v" using v by (simp add: strip_def last_rev)
  then show "\<not> is_space (last (strip s))" using v hd_dropWhile [of is_space "rev ?u"] by simp
qed




lemma clean_line_Nil_iff:
  "clean_line l = [] \<longleftrightarrow> strip l = [] \<or> hd (strip l) = CHR '';''"
proof (cases "strip l = []")
  case True
  then show ?thesis by (simp add: clean_line_def)
next
  case False
  note ne = this
  show ?thesis
  proof (cases "hd (strip l) = CHR '';''")
    case True
    then have "takeWhile (\<lambda>c. c \<noteq> CHR '';'') (strip l) = []"
      using ne by (cases "strip l") simp_all
    moreover have "CHR '';'' \<in> set (strip l)" using ne True hd_in_set by metis
    ultimately show ?thesis using True by (simp add: clean_line_def)
  next
    case False
    let ?t = "takeWhile (\<lambda>c. c \<noteq> CHR '';'') (strip l)"
    have t: "?t \<noteq> [] \<and> hd ?t = hd (strip l)"
      using ne False by (cases "strip l") simp_all
    then have "\<not> is_space (hd ?t)" using strip_ends(1) [OF ne] by simp
    then have "strip ?t \<noteq> []"
      using t strip_eq_Nil_iff [of ?t] hd_in_set by blast
    with ne False show ?thesis by (simp add: clean_line_def Let_def)
  qed
qed

section \<open>Digits and letters\<close>

lemma digit_char_hex: "d < 16 \<Longrightarrow> is_hex_digit (digit_char d)"
proof -
  have "\<forall>d\<in>set [0..<16]. is_hex_digit (digit_char d)" by code_simp
  then show "d < 16 \<Longrightarrow> is_hex_digit (digit_char d)" by simp
qed

lemma digits_of_hex:
  "2 \<le> b \<Longrightarrow> b \<le> 16 \<Longrightarrow> c \<in> set (digits_of b n) \<Longrightarrow> is_hex_digit c"
proof (induction b n rule: digits_of.induct)
  case (1 b n)
  show ?case
  proof (cases "n < b")
    case True
    with 1 show ?thesis by (auto simp add: digits_of.simps [of b n] intro: digit_char_hex)
  next
    case False
    have "n mod b < 16" using 1(2,3) mod_less_divisor [of b n] by linarith
    with False 1 show ?thesis
      by (auto simp add: digits_of.simps [of b n] intro: digit_char_hex)
  qed
qed

lemma length_digits_of:
  "2 \<le> b \<Longrightarrow> n < b ^ k \<Longrightarrow> 0 < k \<Longrightarrow> length (digits_of b n) \<le> k"
proof (induction b n arbitrary: k rule: digits_of.induct)
  case (1 b n)
  show ?case
  proof (cases "n < b")
    case True
    with 1 show ?thesis by (simp add: digits_of.simps [of b n])
  next
    case False
    obtain j where k: "k = Suc j" using 1(4) by (cases k) auto
    have "j \<noteq> 0" using False 1(3) k by (cases j) auto
    moreover have "n div b < b ^ j"
      using 1(3) k by (simp add: less_mult_imp_div_less mult.commute)
    ultimately have "length (digits_of b (n div b)) \<le> j"
      using 1(1) [of j] False 1(2) by simp
    with False 1(2) k show ?thesis by (simp add: digits_of.simps [of b n])
  qed
qed




lemma digit_value_digit_char: "d < 16 \<Longrightarrow> digit_value (digit_char d) = d"
proof -
  have "\<forall>d\<in>set [0..<16]. digit_value (digit_char d) = d" by code_simp
  then show "d < 16 \<Longrightarrow> digit_value (digit_char d) = d" by simp
qed


lemma digit_value_x: "digit_value CHR ''x'' = 33" "digit_value CHR ''X'' = 33"
  "digit_value CHR ''b'' = 11" "digit_value CHR ''B'' = 11" "digit_value CHR ''0'' = 0"
  by (simp_all add: digit_value_def)

lemma of_char_upper_char:
  "(of_char (upper_char c) :: nat) =
     (if 97 \<le> (of_char c :: nat) \<and> (of_char c :: nat) \<le> 122
         \<or> 224 \<le> (of_char c :: nat) \<and> (of_char c :: nat) \<le> 254 \<and> (of_char c :: nat) \<noteq> 247
      then of_char c - 32 else of_char c)"
proof -
  define n where "n = (of_char c :: nat)"
  show ?thesis
  proof (cases "97 \<le> n \<and> n \<le> 122 \<or> 224 \<le> n \<and> n \<le> 254 \<and> n \<noteq> 247")
    case True
    then have "upper_char c = char_of (n - 32)" by (simp add: upper_char_def n_def)
    then have "(of_char (upper_char c) :: nat) = (n - 32) mod 256" by simp
    also have "\<dots> = n - 32" using True by (intro mod_less) linarith
    finally show ?thesis using True unfolding n_def by auto
  next
    case False
    then have "upper_char c = c" by (auto simp add: upper_char_def n_def)
    then show ?thesis using False unfolding n_def by auto
  qed
qed


lemma code_eq_iff: "(of_char c :: nat) = of_char d \<longleftrightarrow> c = d"
  by simp

lemma upper_char_R: "upper_char c = CHR ''R'' \<longleftrightarrow> c = CHR ''R'' \<or> c = CHR ''r''"
proof -
  define n where "n = (of_char c :: nat)"
  have "upper_char c = CHR ''R'' \<longleftrightarrow> (of_char (upper_char c) :: nat) = of_char CHR ''R''"
    by (simp only: code_eq_iff)
  also have "\<dots> \<longleftrightarrow> n = 82 \<or> n = 114"
    unfolding of_char_upper_char n_def [symmetric] by auto
  also have "\<dots> \<longleftrightarrow> n = of_char CHR ''R'' \<or> n = of_char CHR ''r''"
    by simp
  also have "\<dots> \<longleftrightarrow> c = CHR ''R'' \<or> c = CHR ''r''"
    unfolding n_def by (simp only: code_eq_iff)
  finally show ?thesis .
qed

lemma upper_char_other:
  assumes "d \<in> set ''0123[]''"
  shows "upper_char c = d \<longleftrightarrow> c = d"
proof -
  define n where "n = (of_char c :: nat)"
  define m where "m = (of_char d :: nat)"
  have m: "m \<in> {48, 49, 50, 51, 91, 93}" using assms unfolding m_def by auto
  have "upper_char c = d \<longleftrightarrow> (of_char (upper_char c) :: nat) = of_char d"
    by (simp only: code_eq_iff)
  also have "\<dots> \<longleftrightarrow> n = m"
    unfolding of_char_upper_char n_def [symmetric] m_def [symmetric] using m by auto
  also have "\<dots> \<longleftrightarrow> c = d"
    unfolding n_def m_def by (simp only: code_eq_iff)
  finally show ?thesis .
qed



section \<open>Register operands\<close>

lemma replace_empty: "replace c [] s = filter (\<lambda>x. x \<noteq> c) s"
  by (induction s) (simp_all add: replace_def)

lemma register_text: "replace CHR '']'' [] (replace CHR ''['' [] s) = unbracket s"
  by (simp add: replace_empty unbracket_def)

lemma unbracket_upper: "unbracket (upper s) = upper (unbracket s)"
proof -
  have "upper_char x \<noteq> CHR ''['' \<and> upper_char x \<noteq> CHR '']'' \<longleftrightarrow> x \<noteq> CHR ''['' \<and> x \<noteq> CHR '']''" for x
    using upper_char_other [of "CHR ''[''" x] upper_char_other [of "CHR '']''" x] by simp
  then show ?thesis
    by (simp add: unbracket_def upper_def filter_map comp_def)
qed

lemma upper_register:
  assumes "n < 4"
  shows "upper t = [CHR ''R'', digit_char n] \<longleftrightarrow>
         t = [CHR ''R'', digit_char n] \<or> t = [CHR ''r'', digit_char n]"
proof -
  have "digit_char n \<in> set ''0123[]''"
    using assms by (auto simp add: digit_char_def less_Suc_eq numeral_eq_Suc)
  then have d: "upper_char y = digit_char n \<longleftrightarrow> y = digit_char n" for y
    by (rule upper_char_other)
  show ?thesis
    by (cases t rule: list.exhaust; simp add: upper_def)
      (cases "tl t"; auto simp add: upper_char_R d)
qed

lemma small_digit: "n < 4 \<Longrightarrow> digit_char n \<in> set ''0123'' \<and> py_int [digit_char n] 10 = Some (int n)"
proof -
  have "\<forall>n\<in>set [0..<4]. digit_char n \<in> set ''0123'' \<and> py_int [digit_char n] 10 = Some (int n)"
    by code_simp
  then show "n < 4 \<Longrightarrow> digit_char n \<in> set ''0123'' \<and> py_int [digit_char n] 10 = Some (int n)"
    by simp
qed

lemma small_digit_cases: "c \<in> set ''0123'' \<Longrightarrow> \<exists>n<4. c = digit_char n"
proof -
  have "\<forall>c\<in>set ''0123''. \<exists>n\<in>set [0..<4]. c = digit_char n" by code_simp
  then show "c \<in> set ''0123'' \<Longrightarrow> \<exists>n<4. c = digit_char n" by auto
qed

lemma parse_register_accepted:
  assumes "n < 4" and "unbracket (upper s) = [CHR ''R'', digit_char n]"
  shows "parse_register s = Inr (int n)"
  using small_digit [OF assms(1)] assms(2)
  by (simp add: parse_register_def register_text startswith_def)

lemma parse_register_rejected:
  assumes "\<forall>n<4. unbracket (upper s) \<noteq> [CHR ''R'', digit_char n]"
  shows "parse_register s = Inl (ValueError (''Invalid register: '' @ s @ '' (use R0, R1, R2, or R3)''))"
proof -
  let ?reg = "unbracket (upper s)"
  have "\<not> (startswith ?reg ''R'' \<and> length ?reg = 2 \<and> ?reg ! 1 \<in> set ''0123'')"
  proof
    assume a: "startswith ?reg ''R'' \<and> length ?reg = 2 \<and> ?reg ! 1 \<in> set ''0123''"
    then obtain x y where xy: "?reg = [x, y]"
      by (metis (no_types, opaque_lifting) One_nat_def Suc_1 length_0_conv length_Suc_conv)
    with a have "x = CHR ''R''" and "y \<in> set ''0123''" by (simp_all add: startswith_def)
    then show False using assms xy small_digit_cases [of y] by auto
  qed
  then show ?thesis
    unfolding parse_register_def register_text Let_def by (simp only: if_False)
qed

text \<open>
  C5 (amended). \<open>parse_register\<close> looks at the token without its bracket characters, wherever
  they stand: if what is left is \<open>R\<close> or \<open>r\<close> followed by one digit \<open>n\<close> from 0 to 3 the result
  is \<open>n\<close>, and in every other case it fails with a \<open>ValueError\<close> whose message quotes the token
  as it was passed. So \<open>R3\<close> is accepted and \<open>R4\<close> is rejected.
\<close>

theorem parse_register_accepts:
  "(n < 4 \<and> (unbracket s = [CHR ''R'', digit_char n] \<or> unbracket s = [CHR ''r'', digit_char n]) \<longrightarrow>
      parse_register s = Inr (int n))
   \<and> ((\<forall>n<4. unbracket s \<noteq> [CHR ''R'', digit_char n] \<and> unbracket s \<noteq> [CHR ''r'', digit_char n]) \<longrightarrow>
      parse_register s = Inl (ValueError (''Invalid register: '' @ s @ '' (use R0, R1, R2, or R3)'')))"
proof (intro conjI impI)
  assume "n < 4 \<and> (unbracket s = [CHR ''R'', digit_char n] \<or> unbracket s = [CHR ''r'', digit_char n])"
  then show "parse_register s = Inr (int n)"
    using upper_register [of n "unbracket s"]
    by (intro parse_register_accepted) (simp_all add: unbracket_upper)
next
  assume "\<forall>n<4. unbracket s \<noteq> [CHR ''R'', digit_char n] \<and> unbracket s \<noteq> [CHR ''r'', digit_char n]"
  then have "\<forall>n<4. unbracket (upper s) \<noteq> [CHR ''R'', digit_char n]"
    using upper_register [of _ "unbracket s"] by (simp add: unbracket_upper)
  then show "parse_register s = Inl (ValueError (''Invalid register: '' @ s @ '' (use R0, R1, R2, or R3)''))"
    by (rule parse_register_rejected)
qed

theorem parse_register_accepts_witness:
  "parse_register ''R3'' = Inr 3 \<and> parse_register ''[r2]'' = Inr 2
   \<and> parse_register ''R4'' = Inl (ValueError ''Invalid register: R4 (use R0, R1, R2, or R3)'')"
proof -
  have a: "unbracket ''R3'' = [CHR ''R'', digit_char 3]" by code_simp
  have b: "unbracket ''[r2]'' = [CHR ''r'', digit_char 2]" by code_simp
  have "\<forall>n\<in>set [0..<4]. unbracket ''R4'' \<noteq> [CHR ''R'', digit_char n] \<and> unbracket ''R4'' \<noteq> [CHR ''r'', digit_char n]"
    by code_simp
  then have c: "\<forall>n<4. unbracket ''R4'' \<noteq> [CHR ''R'', digit_char n] \<and> unbracket ''R4'' \<noteq> [CHR ''r'', digit_char n]"
    by simp
  show ?thesis
    using parse_register_accepts [of 3 "''R3''"] parse_register_accepts [of 2 "''[r2]''"]
      parse_register_accepts [of 0 "''R4''"] a b c
    by simp
qed

text \<open>
  C5 as stated fails: tokens with unbalanced or misplaced brackets, which are neither of the
  form \<open>Rn\<close> nor of the form \<open>[Rn]\<close>, are accepted.
\<close>

theorem stray_brackets_counterexample:
  "parse_register ''[R1'' = Inr 1 \<and> parse_register '']R0['' = Inr 0"
  by code_simp

section \<open>Immediate operands\<close>

lemma digits_value_snoc:
  "digits_value b (xs @ [c]) = digits_value b xs * int b + int (digit_value c)"
  by (simp add: digits_value_def)

lemma digits_of_value: "2 \<le> b \<Longrightarrow> b \<le> 16 \<Longrightarrow> digits_value b (digits_of b n) = int n"
proof (induction b n rule: digits_of.induct)
  case (1 b n)
  show ?case
  proof (cases "n < b")
    case True
    then have "n < 16" using 1(3) by simp
    with True show ?thesis
      by (simp add: digits_of.simps [of b n] digits_value_def digit_value_digit_char)
  next
    case False
    have "n mod b < 16" using 1(2,3) mod_less_divisor [of b n] by linarith
    then have "digit_value (digit_char (n mod b)) = n mod b" by (rule digit_value_digit_char)
    moreover have "digits_value b (digits_of b (n div b)) = int (n div b)"
      using 1 False by simp
    ultimately have "digits_value b (digits_of b n) = int (n div b) * int b + int (n mod b)"
      using False 1(2) by (simp add: digits_of.simps [of b n] digits_value_snoc)
    also have "\<dots> = int (n div b * b + n mod b)" by (simp only: of_nat_add of_nat_mult)
    also have "\<dots> = int n" by (simp only: div_mult_mod_eq)
    finally show ?thesis .
  qed
qed





lemma startswith_Nil [simp]: "startswith s []"
  by (simp add: startswith_def)














































text \<open>
  What the theorem on immediates leaves open: after the binary prefix the code hands the rest
  of the token to \<open>int\<close> once more, which reads a sign or a second prefix there, while the
  hexadecimal branch, which hands over the whole token, refuses both.
\<close>

lemma binary_resumed_examples:
  "binary_resumed ''0b0b101'' \<and> parse_immediate ''0b0b101'' = Inr 5
   \<and> binary_resumed ''0b+101'' \<and> parse_immediate ''0b+101'' = Inr 5
   \<and> parse_immediate ''0x0x1f'' = Inl (ValueError ''Invalid immediate value: 0x0x1f'')
   \<and> parse_immediate ''0x+1f'' = Inl (ValueError ''Invalid immediate value: 0x+1f'')"
  by code_simp

section \<open>The assembler driver\<close>

lemma parse_register_not_KeyError: "parse_register s \<noteq> Inl (KeyError k)"
  by (simp add: parse_register_def Let_def split: option.splits)

lemma parse_immediate_not_KeyError: "parse_immediate s \<noteq> Inl (KeyError k)"
  by (simp add: parse_immediate_def py_str_def Let_def split: option.splits)

lemma typed_of_opcode:
  "map_of OPCODES k = Some opcode \<Longrightarrow> \<exists>t. map_of INSTR_TYPES k = Some t"
  by (simp add: INSTR_TYPES_def OPCODES_def split: if_splits)

lemma bind_result_KeyError:
  "bind_result r f = Inl (KeyError k) \<longleftrightarrow>
     r = Inl (KeyError k) \<or> (\<exists>v. r = Inr v \<and> f v = Inl (KeyError k))"
  by (cases r) (simp_all add: bind_result_def)

lemma parse_parts_not_KeyError: "parse_parts parts \<noteq> Inl (KeyError k)"
proof (cases "parts = []")
  case True
  then show ?thesis by (simp add: parse_parts_def)
next
  case False
  show ?thesis
  proof (cases "map_of OPCODES (upper (parts ! 0))")
    case None
    with False show ?thesis by (simp add: parse_parts_def)
  next
    case (Some opcode)
    then obtain t where t: "map_of INSTR_TYPES (upper (parts ! 0)) = Some t"
      using typed_of_opcode by blast
    from False Some t show ?thesis
      by (cases t)
        (simp_all add: parse_parts_def bind_result_KeyError parse_register_not_KeyError
          parse_immediate_not_KeyError)
  qed
qed

lemma parse_line_cases:
  obtains w where "parse_line line n = Inr w" | e where "parse_line line n = Inl (ValueError e)"
proof (cases "parse_line line n")
  case (Inl err)
  then show ?thesis
    using parse_parts_not_KeyError that(2) by (cases err) (auto simp add: parse_line_def)
next
  case (Inr w)
  then show ?thesis using that(1) by blast
qed

lemma assemble_loop_collects:
  "assemble_loop nls prog errs =
     Inr (prog @ concat (map line_words nls), errs @ concat (map line_errors nls))"
proof (induction nls arbitrary: prog errs)
  case Nil
  then show ?case by simp
next
  case (Cons nl nls)
  obtain i l where nl: "nl = (i, l)" by (cases nl)
  show ?case
  proof (cases "clean_line l = []")
    case True
    with Cons nl show ?thesis by (simp add: line_words_def line_errors_def)
  next
    case False
    show ?thesis
    proof (rule parse_line_cases [of "clean_line l" "i + 1"])
      fix w assume "parse_line (clean_line l) (i + 1) = Inr w"
      with Cons nl False show ?thesis by (simp add: line_words_def line_errors_def)
    next
      fix e assume "parse_line (clean_line l) (i + 1) = Inl (ValueError e)"
      with Cons nl False show ?thesis
        by (simp add: line_words_def line_errors_def str_error_def)
    qed
  qed
qed

lemma line_outcome_one:
  "clean_line l \<noteq> [] \<Longrightarrow> length (line_words (i, l)) + length (line_errors (i, l)) = 1"
  by (rule parse_line_cases [of "clean_line l" "i + 1"]) (simp_all add: line_words_def line_errors_def)

lemma line_outcome_none:
  "clean_line l = [] \<Longrightarrow> line_words (i, l) = [] \<and> line_errors (i, l) = []"
  by (simp add: line_words_def line_errors_def)

text \<open>
  C2. \<open>assemble\<close> always returns, and it goes through every line: the program is the
  concatenation, in source order, of what each numbered line contributes as code word, and the
  errors are the concatenation of what each numbered line contributes as error, tagged with the
  1-based line number. A line that is not blank or comment-only contributes exactly one of
  the two; a blank or comment-only line contributes nothing.
\<close>

theorem assemble_collects_all:
  "assemble text =
     Inr \<lparr>success = (concat (map line_errors (enumerate 0 (split_on CHR 0x0A text))) = []),
          program = concat (map line_words (enumerate 0 (split_on CHR 0x0A text))),
          errors = concat (map line_errors (enumerate 0 (split_on CHR 0x0A text)))\<rparr>
   \<and> (clean_line l \<noteq> [] \<longrightarrow> length (line_words (i, l)) + length (line_errors (i, l)) = 1)
   \<and> (clean_line l = [] \<longrightarrow> line_words (i, l) = [] \<and> line_errors (i, l) = [])"
  using line_outcome_one [of l i] line_outcome_none [of l i]
  by (simp add: assemble_def assemble_loop_collects bind_result_def)

theorem assemble_collects_all_witness:
  "assemble ''LDI R0, 5\<newline>LDI R4, 3\<newline>ADD R0, R1\<newline>; c\<newline>FOO R0\<newline>HLT'' =
     Inr \<lparr>success = False, program = [0x9005, 0x1100, 0xE000],
          errors = [''Line 2: Invalid register: R4 (use R0, R1, R2, or R3)'',
                    ''Line 5: Unknown instruction: FOO'']\<rparr>
   \<and> length (line_words (1, ''LDI R4, 3'')) + length (line_errors (1, ''LDI R4, 3'')) = 1"
proof -
  have e: "concat (map line_errors (enumerate 0 (split_on CHR 0x0A
             ''LDI R0, 5\<newline>LDI R4, 3\<newline>ADD R0, R1\<newline>; c\<newline>FOO R0\<newline>HLT''))) =
           [''Line 2: Invalid register: R4 (use R0, R1, R2, or R3)'',
            ''Line 5: Unknown instruction: FOO'']"
    by code_simp
  have p: "concat (map line_words (enumerate 0 (split_on CHR 0x0A
             ''LDI R0, 5\<newline>LDI R4, 3\<newline>ADD R0, R1\<newline>; c\<newline>FOO R0\<newline>HLT''))) =
           [0x9005, 0x1100, 0xE000]"
    by code_simp
  have c: "clean_line ''LDI R4, 3'' \<noteq> []" by code_simp
  show ?thesis
    using assemble_collects_all
      [of "''LDI R0, 5\<newline>LDI R4, 3\<newline>ADD R0, R1\<newline>; c\<newline>FOO R0\<newline>HLT''" "''LDI R4, 3''" 1]
    unfolding e p using c by simp
qed

section \<open>The first end-to-end scenario\<close>

text \<open>
  C3 as stated fails: the second word is \<open>0x9403\<close>, not \<open>0x9103\<close>, since \<open>rd = 1\<close> is
  shifted to bit 10.
\<close>

theorem scenario_1_counterexample:
  "assemble ''LDI R0, 5\<newline>LDI R1, 3\<newline>ADD R0, R1\<newline>HLT'' =
     Inr \<lparr>success = True, program = [0x9005, 0x9403, 0x1100, 0xE000], errors = []\<rparr>
   \<and> [0x9005, 0x9403, 0x1100, 0xE000] \<noteq> [0x9005, 0x9103, 0x1100, 0xE000 :: int]"
  by code_simp

text \<open>
  C3 (amended). The source of the four lines \<open>LDI R0, 5\<close>, \<open>LDI R1, 3\<close>, \<open>ADD R0, R1\<close> and
  \<open>HLT\<close> assembles with no error to the code words \<open>[0x9005, 0x9403, 0x1100, 0xE000]\<close>.
\<close>

theorem scenario_1:
  "assemble ''LDI R0, 5\<newline>LDI R1, 3\<newline>ADD R0, R1\<newline>HLT'' =
     Inr \<lparr>success = True, program = [0x9005, 0x9403, 0x1100, 0xE000], errors = []\<rparr>"
  by code_simp

section \<open>Operand counts\<close>

lemma opcode_of_typed:
  "map_of INSTR_TYPES k = Some t \<Longrightarrow> \<exists>opcode. map_of OPCODES k = Some opcode"
  by (simp add: INSTR_TYPES_def OPCODES_def split: if_splits)

lemma parse_parts_too_few:
  assumes "map_of INSTR_TYPES (upper m) = Some t" and "length ops < operand_count t"
  shows "parse_parts (m # ops) = Inl (ValueError (upper m @ operand_pattern t))"
proof -
  obtain opcode where "map_of OPCODES (upper m) = Some opcode"
    using opcode_of_typed [OF assms(1)] by blast
  with assms show ?thesis
    by (cases t) (simp_all add: parse_parts_def operand_count_def operand_pattern_def)
qed

lemma parse_parts_enough:
  assumes "map_of INSTR_TYPES (upper m) = Some t" and "operand_count t \<le> length ops"
  shows "parse_parts (m # ops) = parse_parts (m # take (operand_count t) ops)"
proof -
  obtain opcode where "map_of OPCODES (upper m) = Some opcode"
    using opcode_of_typed [OF assms(1)] by blast
  with assms show ?thesis
    by (cases t) (auto simp add: parse_parts_def operand_count_def nth_Cons')
qed

text \<open>
  C7 (amended). For a line whose first token is a known mnemonic with format \<open>t\<close>: with fewer
  operand tokens than the format reads, \<open>parse_line\<close> fails with a \<open>ValueError\<close> made of the
  upper-cased mnemonic and the required operand pattern; with at least that many, the result
  is the one for the first \<open>operand_count t\<close> operand tokens alone, so further tokens are
  ignored.
\<close>

theorem operands_read:
  assumes "split_ws (replace CHR '','' '' '' line) = m # ops"
    and "map_of INSTR_TYPES (upper m) = Some t"
  shows "(length ops < operand_count t \<longrightarrow>
            parse_line line n = Inl (ValueError (upper m @ operand_pattern t)))
       \<and> (operand_count t \<le> length ops \<longrightarrow>
            parse_line line n = parse_parts (m # take (operand_count t) ops))"
  unfolding parse_line_def assms(1)
  using parse_parts_too_few [OF assms(2)] parse_parts_enough [OF assms(2)]
  by blast

theorem operands_read_witness:
  "parse_line ''ADD R0'' 1 = Inl (ValueError ''ADD requires two registers (Rd, Rs)'')
   \<and> parse_line ''ADD R0, R1, R2'' 1 = parse_parts [''ADD'', ''R0'', ''R1'']"
proof -
  have t: "map_of INSTR_TYPES (upper ''ADD'') = Some reg_reg" by code_simp
  have a: "split_ws (replace CHR '','' '' '' ''ADD R0'') = ''ADD'' # [''R0'']" by code_simp
  have b: "split_ws (replace CHR '','' '' '' ''ADD R0, R1, R2'') = ''ADD'' # [''R0'', ''R1'', ''R2'']"
    by code_simp
  have u: "upper ''ADD'' = ''ADD''" by code_simp
  show ?thesis
    using operands_read [OF a t, of 1] operands_read [OF b t, of 1]
    by (simp add: operand_count_def operand_pattern_def u)
qed

text \<open>
  C7 as stated fails: a line with more operand tokens than its format reads is encoded
  without error.
\<close>

theorem extra_operands_counterexample:
  "parse_line ''ADD R0, R1, R2'' 1 = Inr 0x1100 \<and> parse_line ''HLT R0'' 1 = Inr 0xE000"
  by code_simp

section \<open>The trace block\<close>

lemma until_closing_Cons:
  "until_closing (l # ls) = (if l = '']'' then [l] else l # until_closing ls)"
  by (simp add: until_closing_def)

lemma kept_lines_Cons:
  "kept_lines (l # ls) =
     (if strip l \<noteq> [] \<and> \<not> startswith (strip l) ''WARNING:'' \<and> \<not> startswith (strip l) ''ERROR:''
      then strip l # kept_lines ls else kept_lines ls)"
  by (simp add: kept_lines_def)

lemma scan_lines_inside:
  "scan_lines ls True acc = acc @ until_closing (kept_lines ls)"
proof (induction ls arbitrary: acc)
  case Nil
  then show ?case by (simp add: kept_lines_def until_closing_def)
next
  case (Cons l ls)
  then show ?case
    by (simp add: kept_lines_Cons until_closing_Cons Let_def)
qed

lemma scan_lines_outside:
  "scan_lines ls False acc = acc @ until_closing (dropWhile (\<lambda>l. l \<noteq> ''['') (kept_lines ls))"
proof (induction ls arbitrary: acc)
  case Nil
  then show ?case by (simp add: kept_lines_def until_closing_def)
next
  case (Cons l ls)
  then show ?case
    by (simp add: kept_lines_Cons until_closing_Cons scan_lines_inside Let_def)
qed

text \<open>
  C4 (amended). Blank lines and lines that begin with \<open>WARNING:\<close> or \<open>ERROR:\<close> are skipped
  wherever they stand, before the opening bracket and after it. Of the other lines, each
  stripped of surrounding whitespace, the ones before the first line that is only an opening
  bracket are dropped, and from that line on every one is buffered up to and including the
  first line that is only a closing bracket, where the scan stops.
\<close>

theorem trace_block_lines:
  "extract_json_lines output =
     until_closing (dropWhile (\<lambda>l. l \<noteq> ''['') (kept_lines (split_on CHR 0x0A output)))"
  by (simp add: extract_json_lines_def scan_lines_outside)

theorem trace_block_lines_witness:
  "extract_json_lines ''note\<newline>WARNING: a\<newline>[\<newline>  {x}, \<newline>\<newline>ERROR: b\<newline>]\<newline>more'' = [''['', ''{x},'', '']'']"
proof -
  have "until_closing (dropWhile (\<lambda>l. l \<noteq> ''['') (kept_lines (split_on CHR 0x0A
          ''note\<newline>WARNING: a\<newline>[\<newline>  {x}, \<newline>\<newline>ERROR: b\<newline>]\<newline>more''))) = [''['', ''{x},'', '']'']"
    by code_simp
  then show ?thesis
    using trace_block_lines [of "''note\<newline>WARNING: a\<newline>[\<newline>  {x}, \<newline>\<newline>ERROR: b\<newline>]\<newline>more''"]
    by simp
qed

text \<open>
  C4 as stated fails: a line beginning with \<open>WARNING:\<close> and a blank line that stand between
  the two brackets are not buffered.
\<close>

theorem diagnostics_inside_block_counterexample:
  "extract_json_lines ''[\<newline>WARNING: x\<newline>\<newline>]'' = [''['', '']'']
   \<and> extract_json_lines ''[\<newline>WARNING: x\<newline>\<newline>]'' \<noteq> [''['', ''WARNING: x'', [], '']'']"
  by code_simp

section \<open>The memory image\<close>

lemma foldl_append_map: "foldl (\<lambda>lines instr. lines @ [f instr]) acc prog = acc @ map f prog"
  by (induction prog arbitrary: acc) simp_all

lemma pad_nops_eq: "pad_nops ls = ls @ replicate (8 - length ls) ''0000''"
proof (induction ls rule: pad_nops.induct)
  case (1 ls)
  show ?case
  proof (cases "length ls < 8")
    case True
    then have "replicate (8 - length ls) ''0000'' = ''0000'' # replicate (8 - length (ls @ [''0000''])) ''0000''"
      by (cases "8 - length ls") simp_all
    with True 1 show ?thesis
      by (simp add: pad_nops.simps [of ls])
  next
    case False
    then show ?thesis by (simp add: pad_nops.simps [of ls])
  qed
qed

lemma to_hex_file_image: "to_hex_file prog = join [CHR 0x0A] (image_lines prog)"
  by (simp add: to_hex_file_def image_lines_def foldl_append_map pad_nops_eq)

lemma length_image_lines: "length (image_lines prog) = max 8 (length prog)"
  by (simp add: image_lines_def)

lemma format_04X_word:
  assumes "0 \<le> w" and "w < 65536"
  shows "length (format_04X w) = 4 \<and> list_all is_hex_digit (format_04X w)"
proof -
  have "nat w < 16 ^ 4" using assms by simp
  then have len: "length (digits_of 16 (nat w)) \<le> 4"
    by (intro length_digits_of) simp_all
  have "\<forall>c\<in>set (digits_of 16 (nat w)). is_hex_digit c"
    using digits_of_hex [of 16] by simp
  moreover have "is_hex_digit CHR ''0''" by (simp add: is_hex_digit_def)
  ultimately show ?thesis
    using assms len by (auto simp add: format_04X_def Let_def list_all_iff)
qed

lemma digits_value_zeros: "digits_value b (replicate k CHR ''0'' @ xs) = digits_value b xs"
proof -
  have "foldl (\<lambda>a c. a * int b + int (digit_value c)) 0 (replicate k CHR ''0'') = 0"
    by (induction k) (simp_all add: digit_value_x)
  then show ?thesis by (simp add: digits_value_def)
qed

lemma format_04X_value: "0 \<le> w \<Longrightarrow> digits_value 16 (format_04X w) = w"
  by (simp add: format_04X_def Let_def digits_value_zeros digits_of_value)

lemma format_04X_no_newline: "CHR 0x0A \<notin> set (format_04X v)"
proof -
  have "\<forall>c\<in>set (digits_of 16 n). c \<noteq> CHR 0x0A" for n
    using digits_of_hex [of 16 _ n] by (auto simp add: is_hex_digit_def)
  then show ?thesis by (auto simp add: format_04X_def Let_def)
qed

lemma image_lines_no_newline: "l \<in> set (image_lines prog) \<Longrightarrow> CHR 0x0A \<notin> set l"
  using format_04X_no_newline by (auto simp add: image_lines_def)

lemma image_lines_nonempty: "image_lines prog \<noteq> []"
  using length_image_lines [of prog] by auto

lemma split_on_plain: "c \<notin> set l \<Longrightarrow> split_on c l = [l]"
  by (induction l) auto

lemma split_on_append: "c \<notin> set l \<Longrightarrow> split_on c (l @ c # r) = l # split_on c r"
  by (induction l) auto

lemma split_on_join:
  "ls \<noteq> [] \<Longrightarrow> \<forall>l\<in>set ls. c \<notin> set l \<Longrightarrow> split_on c (join [c] ls) = ls"
proof (induction "[c]" ls rule: join.induct)
  case 1
  then show ?case by simp
next
  case (2 x)
  then show ?case by (simp add: split_on_plain)
next
  case (3 x y ys)
  then show ?case by (simp add: split_on_append)
qed

lemma split_image: "split_on CHR 0x0A (to_hex_file prog) = image_lines prog"
  unfolding to_hex_file_image
  by (rule split_on_join) (simp_all add: image_lines_nonempty image_lines_no_newline)

lemma image_lines_word:
  assumes "\<forall>w\<in>set prog. 0 \<le> w \<and> w < 65536" and "l \<in> set (image_lines prog)"
  shows "length l = 4 \<and> list_all is_hex_digit l"
proof -
  have "length ''0000'' = 4 \<and> list_all is_hex_digit ''0000''" by (simp add: is_hex_digit_def)
  with assms format_04X_word show ?thesis
    by (auto simp add: image_lines_def)
qed

text \<open>
  C8. The memory image is the newline-joined list of one \<open>04X\<close>-formatted line per word, in
  program order, followed by \<open>0000\<close> lines up to a total of \<open>max 8 (length prog)\<close> lines, and
  splitting the image at newlines gives these lines back. For code words (0 to 65535) every
  line is exactly 4 upper-case hexadecimal digits, and the word lines read in base 16 are the
  words. A 3-word program gives 8 lines, the last 5 of them \<open>0000\<close>.
\<close>

theorem memory_image:
  "to_hex_file prog = join [CHR 0x0A] (image_lines prog)
   \<and> image_lines prog = map format_04X prog @ replicate (8 - length prog) ''0000''
   \<and> length (image_lines prog) = max 8 (length prog)
   \<and> split_on CHR 0x0A (to_hex_file prog) = image_lines prog
   \<and> ((\<forall>w\<in>set prog. 0 \<le> w \<and> w < 65536) \<longrightarrow>
        (\<forall>l\<in>set (image_lines prog). length l = 4 \<and> list_all is_hex_digit l)
        \<and> map (digits_value 16) (map format_04X prog) = prog)
   \<and> (length prog = 3 \<longrightarrow>
        length (image_lines prog) = 8 \<and> drop 3 (image_lines prog) = replicate 5 ''0000'')"
proof (intro conjI impI ballI)
  show "to_hex_file prog = join [CHR 0x0A] (image_lines prog)" by (rule to_hex_file_image)
  show "image_lines prog = map format_04X prog @ replicate (8 - length prog) ''0000''"
    by (simp add: image_lines_def)
  show "length (image_lines prog) = max 8 (length prog)" by (rule length_image_lines)
  show "split_on CHR 0x0A (to_hex_file prog) = image_lines prog" by (rule split_image)
next
  fix l
  assume "\<forall>w\<in>set prog. 0 \<le> w \<and> w < 65536" and "l \<in> set (image_lines prog)"
  then show "length l = 4" and "list_all is_hex_digit l"
    using image_lines_word [of prog l] by simp_all
next
  assume "\<forall>w\<in>set prog. 0 \<le> w \<and> w < 65536"
  then show "map (digits_value 16) (map format_04X prog) = prog"
    by (simp add: format_04X_value map_idI)
next
  assume "length prog = 3"
  then show "length (image_lines prog) = 8" and "drop 3 (image_lines prog) = replicate 5 ''0000''"
    by (simp_all add: image_lines_def)
qed

theorem memory_image_witness:
  "to_hex_file [0x9005, 0x9403, 0xE000] =
     ''9005\<newline>9403\<newline>E000\<newline>0000\<newline>0000\<newline>0000\<newline>0000\<newline>0000''
   \<and> length (image_lines [0x9005, 0x9403, 0xE000]) = 8
   \<and> drop 3 (image_lines [0x9005, 0x9403, 0xE000]) = [''0000'', ''0000'', ''0000'', ''0000'', ''0000'']
   \<and> length (format_04X 0x9403) = 4 \<and> list_all is_hex_digit (format_04X 0x9403)"
proof -
  have r: "replicate 5 ''0000'' = [''0000'', ''0000'', ''0000'', ''0000'', ''0000'']"
    by (simp add: numeral_eq_Suc)
  have i: "join [CHR 0x0A] (image_lines [0x9005, 0x9403, 0xE000]) =
      ''9005\<newline>9403\<newline>E000\<newline>0000\<newline>0000\<newline>0000\<newline>0000\<newline>0000''"
    by (simp add: image_lines_def format_04X_def digits_of.simps digit_char_def r)
  have w: "\<forall>w\<in>set [0x9005, 0x9403, 0xE000 :: int]. 0 \<le> w \<and> w < 65536" by simp
  have l: "length [0x9005, 0x9403, 0xE000 :: int] = 3" by simp
  have m: "format_04X 0x9403 \<in> set (image_lines [0x9005, 0x9403, 0xE000])"
    by (simp add: image_lines_def)
  from memory_image [of "[0x9005, 0x9403, 0xE000]"] w l m
  show ?thesis unfolding i r by blast
qed

section \<open>The simulate endpoint\<close>

lemma assemble_eq:
  "assemble text =
     Inr \<lparr>success = (concat (map line_errors (enumerate 0 (split_on CHR 0x0A text))) = []),
          program = concat (map line_words (enumerate 0 (split_on CHR 0x0A text))),
          errors = concat (map line_errors (enumerate 0 (split_on CHR 0x0A text)))\<rparr>"
  by (simp add: assemble_def assemble_loop_collects bind_result_def)

lemma enumerate_snd: "nl \<in> set (enumerate n ls) \<Longrightarrow> snd nl \<in> set ls"
  by (metis in_set_zipE enumerate_eq_zip prod.collapse)

lemma assemble_comments_only:
  assumes "\<forall>l\<in>set (split_on CHR 0x0A text). strip l = [] \<or> hd (strip l) = CHR '';''"
  shows "assemble text = Inr \<lparr>success = True, program = [], errors = []\<rparr>"
proof -
  have "\<forall>nl\<in>set (enumerate 0 (split_on CHR 0x0A text)). clean_line (snd nl) = []"
    using assms enumerate_snd clean_line_Nil_iff by blast
  then have "\<forall>nl\<in>set (enumerate 0 (split_on CHR 0x0A text)). line_words nl = [] \<and> line_errors nl = []"
    by (auto simp add: line_words_def line_errors_def split: prod.splits)
  then show ?thesis by (simp add: assemble_eq)
qed

text \<open>
  C9. \<open>assemble\<close> returns a result whose \<open>success\<close> holds exactly when its error list is
  empty. A source whose lines are all blank or comments assembles successfully to the empty
  program, and \<open>simulate\<close> answers it with status 400 and the error
  \<open>No instructions in program\<close> without having started any external tool, whatever the
  toolchain is.
\<close>

theorem success_iff_no_errors:
  "(\<exists>r. assemble text = Inr r \<and> (success r \<longleftrightarrow> errors r = []))
   \<and> ((\<forall>l\<in>set (split_on CHR 0x0A text). strip l = [] \<or> hd (strip l) = CHR '';'') \<longrightarrow>
        assemble text = Inr \<lparr>success = True, program = [], errors = []\<rparr>
        \<and> simulate tc (Some text) = (failure 400 ''No instructions in program'', []))"
proof (intro conjI impI)
  show "\<exists>r. assemble text = Inr r \<and> (success r \<longleftrightarrow> errors r = [])"
    by (simp add: assemble_eq)
next
  assume c: "\<forall>l\<in>set (split_on CHR 0x0A text). strip l = [] \<or> hd (strip l) = CHR '';''"
  show "assemble text = Inr \<lparr>success = True, program = [], errors = []\<rparr>"
    by (rule assemble_comments_only [OF c])
  then show "simulate tc (Some text) = (failure 400 ''No instructions in program'', [])"
    by (simp add: simulate_def)
qed

theorem success_iff_no_errors_witness:
  "assemble ''; only comments\<newline>\<newline>   ; and blank lines  '' = Inr \<lparr>success = True, program = [], errors = []\<rparr>
   \<and> simulate
        \<lparr>IVERILOG = Some ''iverilog'', VVP = Some ''vvp'',
         run_iverilog = (\<lambda>image. Completed 0 [] []),
         run_vvp = (\<lambda>image. Completed 0 ''[\<newline>]'' []),
         json_loads = (\<lambda>text. Inr text :: string + string)\<rparr>
        (Some ''; only comments\<newline>\<newline>   ; and blank lines  '') =
       (failure 400 ''No instructions in program'', [])"
proof -
  have "\<forall>l\<in>set (split_on CHR 0x0A ''; only comments\<newline>\<newline>   ; and blank lines  '').
          strip l = [] \<or> hd (strip l) = CHR '';''"
    by code_simp
  then show ?thesis
    using success_iff_no_errors [of "''; only comments\<newline>\<newline>   ; and blank lines  ''"]
    by blast
qed

lemma simulate_success:
  assumes "simulate tc body = (resp, calls)" and "r_success resp"
  shows "\<exists>src asm. body = Some src \<and> assemble src = Inr asm \<and> success asm \<and> program asm \<noteq> []
           \<and> r_program resp = Some (program asm)
           \<and> r_programHex resp = Some (split_on CHR 0x0A (to_hex_file (program asm)))"
proof (cases body)
  case None
  with assms show ?thesis by (auto simp add: simulate_def failure_def)
next
  case (Some src)
  show ?thesis
  proof (cases "assemble src")
    case (Inl e)
    with Some assms show ?thesis by (auto simp add: simulate_def failure_def)
  next
    case (Inr asm)
    with Some assms show ?thesis
      by (auto simp add: simulate_def failure_def Let_def split: if_splits prod.splits)
  qed
qed

text \<open>
  C10. In every successful response of \<open>simulate\<close>, \<open>program\<close> is the assembled program,
  \<open>programHex\<close> is the list of its formatted words followed by \<open>0000\<close> padding, its length is
  \<open>max 8 (length program)\<close>, and every entry from index \<open>length program\<close> up to 7 is \<open>0000\<close>.
\<close>

theorem programHex_padded:
  assumes "simulate tc body = (resp, calls)" and "r_success resp"
  shows "\<exists>src asm. body = Some src \<and> assemble src = Inr asm \<and> program asm \<noteq> []
           \<and> r_program resp = Some (program asm)
           \<and> r_programHex resp =
               Some (map format_04X (program asm) @ replicate (8 - length (program asm)) ''0000'')
           \<and> (\<forall>hex. r_programHex resp = Some hex \<longrightarrow>
                 length hex = max 8 (length (program asm))
                 \<and> (\<forall>i. length (program asm) \<le> i \<and> i < 8 \<longrightarrow> hex ! i = ''0000''))"
proof -
  obtain src asm where s: "body = Some src" "assemble src = Inr asm" "program asm \<noteq> []"
    "r_program resp = Some (program asm)"
    "r_programHex resp = Some (split_on CHR 0x0A (to_hex_file (program asm)))"
    using simulate_success [OF assms] by blast
  have h: "r_programHex resp =
      Some (map format_04X (program asm) @ replicate (8 - length (program asm)) ''0000'')"
    using s(5) by (simp add: split_image image_lines_def)
  have "(map format_04X (program asm) @ replicate (8 - length (program asm)) ''0000'') ! i = ''0000''"
    if "length (program asm) \<le> i" "i < 8" for i
    using that by (simp add: nth_append)
  moreover have "length (map format_04X (program asm) @ replicate (8 - length (program asm)) ''0000'')
      = max 8 (length (program asm))"
    by simp
  ultimately show ?thesis
    using s(1-4) h by (intro exI [of _ src] exI [of _ asm]) simp
qed

theorem programHex_padded_witness:
  "r_programHex (fst (simulate
      \<lparr>IVERILOG = Some ''iverilog'', VVP = Some ''vvp'',
       run_iverilog = (\<lambda>image. Completed 0 [] []),
       run_vvp = (\<lambda>image. Completed 0 ''[\<newline>]'' []),
       json_loads = (\<lambda>text. Inr text)\<rparr>
      (Some ''LDI R0, 5\<newline>HLT''))) =
   Some [''9005'', ''E000'', ''0000'', ''0000'', ''0000'', ''0000'', ''0000'', ''0000'']"
proof -
  let ?tc = "\<lparr>IVERILOG = Some ''iverilog'', VVP = Some ''vvp'',
       run_iverilog = (\<lambda>image. Completed 0 [] []),
       run_vvp = (\<lambda>image. Completed 0 ''[\<newline>]'' []),
       json_loads = (\<lambda>text. Inr text :: string + string)\<rparr>"
  obtain resp calls where r: "simulate ?tc (Some ''LDI R0, 5\<newline>HLT'') = (resp, calls)"
    by (cases "simulate ?tc (Some ''LDI R0, 5\<newline>HLT'')")
  have a: "assemble ''LDI R0, 5\<newline>HLT'' = Inr \<lparr>success = True, program = [0x9005, 0xE000], errors = []\<rparr>"
    by code_simp
  have j: "extract_json_lines ''[\<newline>]'' = [''['', '']'']" by code_simp
  have ok: "r_success resp"
    using r by (auto simp add: simulate_def a run_simulation_def j Let_def)
  have f: "map format_04X [0x9005, 0xE000] = [''9005'', ''E000'']"
    by (simp add: format_04X_def digits_of.simps digit_char_def)
  have p: "replicate 6 ''0000'' = [''0000'', ''0000'', ''0000'', ''0000'', ''0000'', ''0000'']"
    by (simp add: numeral_eq_Suc)
  show ?thesis
    using programHex_padded [OF r ok] r a f p by auto
qed

end
